theory Spec2Isabelle
  imports Complex_Main
begin

section \<open>Values, exceptions and outcomes\<close>

text \<open>
  The development embeds \<^verbatim>\<open>Waveform.py\<close>. Python floats and numpy float arrays are
  modelled by real numbers and lists of reals, so arithmetic is exact: rounding, overflow
  and the saturation of \<^verbatim>\<open>np.exp\<close> are outside the model. numpy does not raise on
  a division by zero or on the mean of an empty array: it warns and carries on with
  \<^verbatim>\<open>nan\<close> or \<^verbatim>\<open>inf\<close>. Those values are kept apart from the reals by the
  type \<open>npfloat\<close>, and a run in which they arise has the outcome \<open>Nonfinite\<close>:
  nothing was raised up to that point, and the real-valued model does not follow the
  run any further.
\<close>

datatype exn = AssertionError | ValueError | ZeroDivisionError | IndexError

datatype npfloat = Finite real | PosInf | NegInf | NaN

datatype 'a outcome = Raises exn | Nonfinite | Returns 'a

definition obind :: "'a outcome \<Rightarrow> ('a \<Rightarrow> 'b outcome) \<Rightarrow> 'b outcome" where
  "obind m f = (case m of Raises e \<Rightarrow> Raises e | Nonfinite \<Rightarrow> Nonfinite | Returns x \<Rightarrow> f x)"

text \<open>A loop that appends one computed value per element and stops at the first
  element whose computation does not return.\<close>

fun omap :: "('a \<Rightarrow> 'b outcome) \<Rightarrow> 'a list \<Rightarrow> 'b list outcome" where
  "omap f [] = Returns []"
| "omap f (x # xs) = obind (f x) (\<lambda>y. obind (omap f xs) (\<lambda>ys. Returns (y # ys)))"

text \<open>\<^verbatim>\<open>int(x)\<close> on a float truncates toward zero.\<close>

definition py_int :: "real \<Rightarrow> int" where
  "py_int x = (if 0 \<le> x then \<lfloor>x\<rfloor> else \<lceil>x\<rceil>)"

section \<open>Library operations used by the source\<close>

text \<open>\<^verbatim>\<open>range(0, stop, step)\<close>: the values \<open>0, step, 2 * step, ...\<close> before
  \<open>stop\<close>; a zero step raises \<^verbatim>\<open>ValueError\<close>.\<close>

function range_from :: "int \<Rightarrow> int \<Rightarrow> int \<Rightarrow> int list" where
  "range_from i stop step =
     (if 0 < step \<and> i < stop then i # range_from (i + step) stop step
      else if step < 0 \<and> stop < i then i # range_from (i + step) stop step
      else [])"
  by pat_completeness auto
termination
  by (relation "measure (\<lambda>(i, stop, step). if 0 < step then nat (stop - i) else nat (i - stop))")
     auto

declare range_from.simps [simp del]

definition py_range :: "int \<Rightarrow> int \<Rightarrow> int list outcome" where
  "py_range stop step = (if step = 0 then Raises ValueError else Returns (range_from 0 stop step))"

text \<open>A slice \<^verbatim>\<open>xs[a:b]\<close>: a negative bound counts from the end, and both bounds are
  clamped to the list, so a slice never raises.\<close>

definition slice_bound :: "nat \<Rightarrow> int \<Rightarrow> nat" where
  "slice_bound n i = (if i < 0 then nat (max 0 (i + int n)) else min (nat i) n)"

definition py_slice :: "'a list \<Rightarrow> int \<Rightarrow> int \<Rightarrow> 'a list" where
  "py_slice xs a b =
     (let lo = slice_bound (length xs) a; hi = slice_bound (length xs) b
      in take (hi - lo) (drop lo xs))"

text \<open>\<^verbatim>\<open>np.pad(a, (before, after))\<close> in its default constant mode pads with zeros;
  a negative width raises \<^verbatim>\<open>ValueError\<close>. \<^verbatim>\<open>np.pad(a, k)\<close> is
  \<^verbatim>\<open>np.pad(a, (k, k))\<close>.\<close>

definition np_pad :: "real list \<Rightarrow> int \<Rightarrow> int \<Rightarrow> real list outcome" where
  "np_pad xs before after =
     (if before < 0 \<or> after < 0 then Raises ValueError
      else Returns (replicate (nat before) 0 @ xs @ replicate (nat after) 0))"

section \<open>The envelope\<close>

definition sigmoid :: "real \<Rightarrow> real" where
  "sigmoid x = 1 / (1 + exp (- x))"

text \<open>The compressor applied to every pooled value in the last line of
  \<^verbatim>\<open>envelope\<close>.\<close>

definition compress :: "real \<Rightarrow> real" where
  "compress x = 1.9 * (sigmoid (2.5 * x) - 0.5)"

text \<open>\<^verbatim>\<open>np.maximum(frame, 0).mean()\<close>; the mean of an empty frame is
  \<^verbatim>\<open>nan\<close>.\<close>

definition pooled :: "real list \<Rightarrow> real outcome" where
  "pooled frame =
     (if frame = [] then Nonfinite
      else Returns (sum_list (map (\<lambda>x. max x 0) frame) / real (length frame)))"

definition envelope :: "real list \<Rightarrow> int \<Rightarrow> int \<Rightarrow> real list outcome" where
  "envelope wav window stride =
     obind (np_pad wav (window div 2) (window div 2)) (\<lambda>padded.
     obind (py_range (int (length padded) - window) stride) (\<lambda>offs.
     obind (omap (\<lambda>off. pooled (py_slice padded off (off + window))) offs) (\<lambda>out.
     Returns (map compress out))))"

section \<open>Channel selection and normalisation\<close>

text \<open>The decoded audio is a numpy array of shape \<open>(channels, samples)\<close>, here the
  list of its channels. \<^verbatim>\<open>read_audio\<close> builds it by a reshape, so it has at least one
  channel and all channels have the same length.\<close>

definition rectangular :: "real list list \<Rightarrow> nat \<Rightarrow> bool" where
  "rectangular wav n = (wav \<noteq> [] \<and> list_all (\<lambda>ch. length ch = n) wav)"

text \<open>\<^verbatim>\<open>wav.mean(0)\<close>: the channels are added up along axis 0 and the sum is divided
  by their number. (The mean over no channel at all is \<^verbatim>\<open>nan\<close>.)\<close>

definition mean0 :: "real list list \<Rightarrow> real list outcome" where
  "mean0 wav =
     (case wav of
        [] \<Rightarrow> Nonfinite
      | ch # chs \<Rightarrow> Returns (map (\<lambda>s. s / real (length wav)) (foldl (map2 (+)) ch chs)))"

text \<open>Lines 185 to 192 of \<^verbatim>\<open>visualize\<close>.\<close>

definition select_channels :: "bool \<Rightarrow> real list list \<Rightarrow> real list list outcome" where
  "select_channels stereo wav =
     (if stereo then
        (if length wav = 2 then Returns [wav ! 0, wav ! 1] else Raises AssertionError)
      else obind (mean0 wav) (\<lambda>m. Returns [m]))"

definition mean :: "real list \<Rightarrow> real" where
  "mean xs = sum_list xs / real (length xs)"

text \<open>\<^verbatim>\<open>wav.std()\<close>: the square root of the mean squared deviation from the mean;
  \<^verbatim>\<open>nan\<close> for an empty array.\<close>

definition std_dev :: "real list \<Rightarrow> real" where
  "std_dev xs = sqrt (mean (map (\<lambda>x. (x - mean xs)\<^sup>2) xs))"

definition np_std :: "real list \<Rightarrow> npfloat" where
  "np_std xs = (if xs = [] then NaN else Finite (std_dev xs))"

text \<open>numpy's float division of a finite value: a zero divisor gives \<^verbatim>\<open>nan\<close> or
  a signed infinity and raises nothing. (A standard deviation of zero is \<open>+0.0\<close>.)\<close>

fun np_divide :: "real \<Rightarrow> npfloat \<Rightarrow> npfloat" where
  "np_divide x (Finite s) =
     (if s \<noteq> 0 then Finite (x / s) else if x = 0 then NaN else if 0 < x then PosInf else NegInf)"
| "np_divide x PosInf = Finite 0"
| "np_divide x NegInf = Finite 0"
| "np_divide x NaN = NaN"

text \<open>\<^verbatim>\<open>wav / wav.std()\<close>, line 194.\<close>

definition divide_by_std :: "real list \<Rightarrow> npfloat list" where
  "divide_by_std wav = map (\<lambda>x. np_divide x (np_std wav)) wav"

fun finite_array :: "npfloat list \<Rightarrow> real list outcome" where
  "finite_array [] = Returns []"
| "finite_array (Finite r # xs) = obind (finite_array xs) (\<lambda>rs. Returns (r # rs))"
| "finite_array (_ # xs) = Nonfinite"

section \<open>Derived parameters\<close>

text \<open>Line 196: \<^verbatim>\<open>window = int(sr * time / bars)\<close>.\<close>

definition derive_window :: "real \<Rightarrow> real \<Rightarrow> int \<Rightarrow> int outcome" where
  "derive_window sr time bars =
     (if bars = 0 then Raises ZeroDivisionError else Returns (py_int (sr * time / of_int bars)))"

text \<open>Line 197: \<^verbatim>\<open>stride = int(window / oversample)\<close>.\<close>

definition derive_stride :: "int \<Rightarrow> real \<Rightarrow> int outcome" where
  "derive_stride window oversample =
     (if oversample = 0 then Raises ZeroDivisionError
      else Returns (py_int (of_int window / oversample)))"

text \<open>Lines 205 and 206: \<^verbatim>\<open>duration = len(wavs[0]) / sr\<close> and
  \<^verbatim>\<open>frames = int(rate * duration)\<close>.\<close>

definition frame_count :: "real \<Rightarrow> real \<Rightarrow> nat \<Rightarrow> int outcome" where
  "frame_count rate sr n =
     (if sr = 0 then Raises ZeroDivisionError else Returns (py_int (rate * (real n / sr))))"

text \<open>\<^verbatim>\<open>np.hanning(M)\<close>, after numpy's implementation: empty below one point, a
  single one for one point, and \<open>0.5 + 0.5 * cos (pi * n / (M - 1))\<close> over
  \<open>n = 1 - M, 3 - M, ..., M - 1\<close> otherwise.\<close>

definition np_hanning :: "int \<Rightarrow> real list" where
  "np_hanning M =
     (if M < 1 then []
      else if M = 1 then [1]
      else map (\<lambda>n. 0.5 + 0.5 * cos (pi * of_int n / of_int (M - 1))) (range_from (1 - M) M 2))"

section \<open>One frame\<close>

text \<open>Line 211; dividing by a zero rate, stride or bar count raises.\<close>

definition frame_pos :: "nat \<Rightarrow> real \<Rightarrow> real \<Rightarrow> int \<Rightarrow> int \<Rightarrow> real outcome" where
  "frame_pos idx rate sr stride bars =
     (if rate = 0 \<or> stride = 0 \<or> bars = 0 then Raises ZeroDivisionError
      else Returns (real idx / rate * sr / of_int stride / of_int bars))"

text \<open>\<^verbatim>\<open>a.max()\<close> raises \<^verbatim>\<open>ValueError\<close> on an empty array, and
  \<^verbatim>\<open>math.log10\<close> on an argument that is not positive.\<close>

definition np_max :: "real list \<Rightarrow> real outcome" where
  "np_max xs = (if xs = [] then Raises ValueError else Returns (Max (set xs)))"

definition py_log10 :: "real \<Rightarrow> real outcome" where
  "py_log10 x = (if x \<le> 0 then Raises ValueError else Returns (log 10 x))"

definition interpole :: "real \<Rightarrow> real \<Rightarrow> real \<Rightarrow> real \<Rightarrow> real \<Rightarrow> real outcome" where
  "interpole x1 y1 x2 y2 x =
     (if x2 - x1 = 0 then Raises ZeroDivisionError
      else Returns (y1 + (y2 - y1) * (x - x1) / (x2 - x1)))"

definition np_clip :: "real \<Rightarrow> real \<Rightarrow> real \<Rightarrow> real" where
  "np_clip x lo hi = min (max x lo) hi"

text \<open>Elementwise arithmetic on one-dimensional arrays broadcasts an array of length
  one and raises \<^verbatim>\<open>ValueError\<close> on any other mismatch of lengths; the in-place
  \<^verbatim>\<open>*=\<close> keeps the length of its left operand.\<close>

definition np_add :: "real list \<Rightarrow> real list \<Rightarrow> real list outcome" where
  "np_add xs ys =
     (if length xs = length ys then Returns (map2 (+) xs ys)
      else if length xs = 1 then Returns (map (\<lambda>y. hd xs + y) ys)
      else if length ys = 1 then Returns (map (\<lambda>x. x + hd ys) xs)
      else Raises ValueError)"

definition np_imul :: "real list \<Rightarrow> real list \<Rightarrow> real list outcome" where
  "np_imul xs ys =
     (if length ys = length xs then Returns (map2 (*) xs ys)
      else if length ys = 1 then Returns (map (\<lambda>x. x * hd ys) xs)
      else Raises ValueError)"

text \<open>Lines 212 to 224, for one channel's padded envelope \<open>env\<close>.\<close>

definition blend :: "real list \<Rightarrow> real list \<Rightarrow> real \<Rightarrow> int \<Rightarrow> real \<Rightarrow> real list outcome" where
  "blend env smooth pos bars speed =
     (let off = py_int pos;
          loc = pos - of_int off;
          env1 = py_slice env (off * bars) ((off + 1) * bars);
          env2 = py_slice env ((off + 1) * bars) ((off + 2) * bars)
      in obind (np_max env2) (\<lambda>m.
         obind (py_log10 (0.0001 + m)) (\<lambda>l.
         obind (interpole (- 6) 0.5 0 2 (l * 10)) (\<lambda>y.
         let speedup = np_clip y 0.5 2;
             w = sigmoid (speed * speedup * (loc - 0.5))
         in obind (np_add (map (\<lambda>x. (1 - w) * x) env1) (map (\<lambda>x. w * x) env2)) (\<lambda>denv.
            np_imul denv smooth)))))"

section \<open>Rendering\<close>

text \<open>A frame is the size of its surface and the cairo calls made on its context, in
  order. (What cairo itself may refuse, such as a surface of invalid size or a file it
  cannot write, is outside the model.)\<close>

datatype cairo_op =
    Scale real real
  | SetSourceRGB real real real
  | SetSourceRGBA real real real real
  | Rectangle real real real real
  | Fill
  | SetLineWidth real
  | MoveTo real real
  | LineTo real real
  | Stroke

type_synonym colour = "real \<times> real \<times> real"
type_synonym image = "(int \<times> int) \<times> cairo_op list"
type_synonym png_file = "string \<times> image"

text \<open>The body of the two loops of \<^verbatim>\<open>draw_env\<close>, lines 128 to 138.\<close>

definition draw_bar ::
  "real list list \<Rightarrow> colour list \<Rightarrow> real \<Rightarrow> real \<Rightarrow> nat \<Rightarrow> nat \<Rightarrow> cairo_op list outcome" where
  "draw_bar envs fg_colors pad delta step i =
     (if i < length envs \<and> step < length (envs ! i) then
        (let K = length envs;
             half = 0.5 * (envs ! i ! step) / real K;
             midrule = (1 + 2 * real i) / (2 * real K);
             x = pad + real step * delta
         in if i < length fg_colors then
              (case fg_colors ! i of (r, g, b) \<Rightarrow>
                 Returns [SetSourceRGB r g b, MoveTo x (midrule - half), LineTo x midrule, Stroke,
                          SetSourceRGBA r g b 0.8, MoveTo x midrule,
                          LineTo x (midrule + 0.9 * half), Stroke])
            else Raises IndexError)
      else Raises IndexError)"

definition draw_env :: "real list list \<Rightarrow> colour list \<Rightarrow> colour \<Rightarrow> int \<times> int \<Rightarrow> image outcome" where
  "draw_env envs fg_colors bg_color size_wh =
     (case envs of
        [] \<Rightarrow> Raises IndexError
      | e0 # _ \<Rightarrow>
          (let K = length envs; T = length e0
           in if T = 0 then Raises ZeroDivisionError
              else
                (let pad_ratio = 0.1;
                     width = 1 / (real T * (1 + 2 * pad_ratio));
                     pad = pad_ratio * width;
                     delta = 2 * pad + width
                 in obind (omap (\<lambda>step. omap (draw_bar envs fg_colors pad delta step) [0..<K])
                             [0..<T]) (\<lambda>drawn.
                    case bg_color of (r, g, b) \<Rightarrow>
                      Returns (size_wh,
                        [Scale (of_int (fst size_wh)) (of_int (snd size_wh)),
                         SetSourceRGB r g b, Rectangle 0 0 1 1, Fill, SetLineWidth width]
                        @ concat (concat drawn))))))"

text \<open>What the calls paint: a stroke draws the current path with the current source and
  line width and clears the path, a fill clears it. Coordinates are those of the calls
  (the unit square that \<^verbatim>\<open>ctx.scale\<close> maps to the surface).\<close>

record segment =
  seg_from :: "real \<times> real"
  seg_to :: "real \<times> real"
  seg_rgba :: "real \<times> real \<times> real \<times> real"
  seg_width :: real

fun path_segments ::
  "real \<times> real \<times> real \<times> real \<Rightarrow> real \<Rightarrow> (real \<times> real) list \<Rightarrow> segment list" where
  "path_segments src lw (p # q # ps) =
     \<lparr>seg_from = p, seg_to = q, seg_rgba = src, seg_width = lw\<rparr> # path_segments src lw (q # ps)"
| "path_segments src lw ps = []"

fun strokes ::
  "real \<times> real \<times> real \<times> real \<Rightarrow> real \<Rightarrow> (real \<times> real) list \<Rightarrow> cairo_op list \<Rightarrow> segment list" where
  "strokes src lw path [] = []"
| "strokes src lw path (SetSourceRGB r g b # ops) = strokes (r, g, b, 1) lw path ops"
| "strokes src lw path (SetSourceRGBA r g b a # ops) = strokes (r, g, b, a) lw path ops"
| "strokes src lw path (SetLineWidth w # ops) = strokes src w path ops"
| "strokes src lw path (MoveTo x y # ops) = strokes src lw [(x, y)] ops"
| "strokes src lw path (LineTo x y # ops) = strokes src lw (path @ [(x, y)]) ops"
| "strokes src lw path (Stroke # ops) = path_segments src lw path @ strokes src lw [] ops"
| "strokes src lw path (Fill # ops) = strokes src lw [] ops"
| "strokes src lw path (Rectangle x y w h # ops) = strokes src lw path ops"
| "strokes src lw path (Scale sx sy # ops) = strokes src lw path ops"

section \<open>The driver\<close>

text \<open>\<^verbatim>\<open>f"{audioID}-{idx:06d}.png"\<close>: the index in decimal, padded with zeros to at
  least six digits.\<close>

fun dec :: "nat \<Rightarrow> string" where
  "dec n = (if n < 10 then [''0123456789'' ! n] else dec (n div 10) @ [''0123456789'' ! (n mod 10)])"

declare dec.simps [simp del]

definition fmt_06d :: "nat \<Rightarrow> string" where
  "fmt_06d idx = replicate (6 - length (dec idx)) (CHR ''0'') @ dec idx"

definition frame_name :: "string \<Rightarrow> nat \<Rightarrow> string" where
  "frame_name audioID idx = audioID @ ''-'' @ fmt_06d idx @ ''.png''"

text \<open>Lines 196 to 207 of \<^verbatim>\<open>visualize\<close>, on the normalised channels: the
  padded envelopes, the stride, the frame count and the taper.\<close>

definition extract_envelopes ::
  "real list list \<Rightarrow> real \<Rightarrow> real \<Rightarrow> int \<Rightarrow> real \<Rightarrow> real
     \<Rightarrow> (real list list \<times> int \<times> int \<times> real list) outcome" where
  "extract_envelopes wavs sr rate bars time oversample =
     obind (derive_window sr time bars) (\<lambda>window.
     obind (derive_stride window oversample) (\<lambda>stride.
     obind (omap (\<lambda>w. obind (envelope w window stride) (\<lambda>env.
                        np_pad env (bars div 2) (2 * bars))) wavs) (\<lambda>envs.
     case wavs of
       [] \<Rightarrow> Raises IndexError
     | w0 # _ \<Rightarrow>
         obind (frame_count rate sr (length w0)) (\<lambda>frames.
         Returns (envs, stride, frames, np_hanning bars)))))"

text \<open>Everything \<^verbatim>\<open>visualize\<close> does before the frame loop (lines 185 to 207).\<close>

definition prepare ::
  "real list list \<Rightarrow> real \<Rightarrow> real \<Rightarrow> int \<Rightarrow> real \<Rightarrow> real \<Rightarrow> bool
     \<Rightarrow> (real list list \<times> int \<times> int \<times> real list) outcome" where
  "prepare wav sr rate bars time oversample stereo =
     obind (select_channels stereo wav) (\<lambda>wavs.
     obind (omap (\<lambda>w. finite_array (divide_by_std w)) wavs) (\<lambda>wavs.
     extract_envelopes wavs sr rate bars time oversample))"

text \<open>The body of the frame loop, lines 211 to 226: the file it writes.\<close>

definition frame ::
  "string \<Rightarrow> real list list \<Rightarrow> real list \<Rightarrow> real \<Rightarrow> real \<Rightarrow> int \<Rightarrow> int \<Rightarrow> real
     \<Rightarrow> colour \<Rightarrow> colour \<Rightarrow> colour \<Rightarrow> int \<times> int \<Rightarrow> nat \<Rightarrow> png_file outcome" where
  "frame audioID envs smooth rate sr stride bars speed fg_color fg_color2 bg_color size_wh idx =
     obind (frame_pos idx rate sr stride bars) (\<lambda>pos.
     obind (omap (\<lambda>env. blend env smooth pos bars speed) envs) (\<lambda>denvs.
     obind (draw_env denvs [fg_color, fg_color2] bg_color size_wh) (\<lambda>img.
     Returns (frame_name audioID idx, img))))"

text \<open>The loop over the frame indices. The files written so far are the state; a frame
  that does not return ends the run and leaves them as they are.\<close>

fun write_frames :: "(nat \<Rightarrow> png_file outcome) \<Rightarrow> nat list \<Rightarrow> png_file list \<Rightarrow> png_file list \<times> unit outcome" where
  "write_frames body [] fs = (fs, Returns ())"
| "write_frames body (idx # idxs) fs =
     (case body idx of
        Raises e \<Rightarrow> (fs, Raises e)
      | Nonfinite \<Rightarrow> (fs, Nonfinite)
      | Returns f \<Rightarrow> write_frames body idxs (fs @ [f]))"

text \<open>\<^verbatim>\<open>visualize\<close>, from the decoded audio \<open>(wav, sr)\<close> on: \<open>fs\<close> are the files in
  the working directory before the call, the result holds those after it.\<close>

definition visualize ::
  "png_file list \<Rightarrow> string \<Rightarrow> real list list \<Rightarrow> real \<Rightarrow> real \<Rightarrow> int \<Rightarrow> real \<Rightarrow> real \<Rightarrow> real
     \<Rightarrow> colour \<Rightarrow> colour \<Rightarrow> colour \<Rightarrow> int \<times> int \<Rightarrow> bool \<Rightarrow> png_file list \<times> unit outcome" where
  "visualize fs audioID wav sr rate bars speed time oversample fg_color fg_color2 bg_color
       size_wh stereo =
     (case prepare wav sr rate bars time oversample stereo of
        Raises e \<Rightarrow> (fs, Raises e)
      | Nonfinite \<Rightarrow> (fs, Nonfinite)
      | Returns (envs, stride, frames, smooth) \<Rightarrow>
          write_frames
            (frame audioID envs smooth rate sr stride bars speed fg_color fg_color2 bg_color size_wh)
            [0..<nat frames] fs)"

text \<open>The array \<^verbatim>\<open>envelope\<close> pools over: the waveform with \<open>window // 2\<close> zeros
  on each side.\<close>

definition padded_wav :: "real list \<Rightarrow> int \<Rightarrow> real list" where
  "padded_wav wav window =
     replicate (nat (window div 2)) 0 @ wav @ replicate (nat (window div 2)) 0"

text \<open>An envelope after line 202, \<^verbatim>\<open>np.pad(env, (bars // 2, 2 * bars))\<close>, for a bar
  count that is not negative.\<close>

definition padded_env :: "real list \<Rightarrow> int \<Rightarrow> real list" where
  "padded_env e bars = replicate (nat (bars div 2)) 0 @ e @ replicate (nat (2 * bars)) 0"

section \<open>The blend as the specification words it\<close>





section \<open>Facts about the model\<close>

subsection \<open>Outcomes and the compressor\<close>

lemma obind_simps [simp]:
  "obind (Raises e) f = Raises e"
  "obind Nonfinite f = Nonfinite"
  "obind (Returns x) f = f x"
  by (simp_all add: obind_def)

lemma obind_Returns_iff:
  "obind m f = Returns y \<longleftrightarrow> (\<exists>x. m = Returns x \<and> f x = Returns y)"
  by (cases m) simp_all

lemma sigmoid_less_one: "sigmoid x < 1"
  by (simp add: sigmoid_def add_pos_pos)

lemma sigmoid_mono: "x \<le> y \<Longrightarrow> sigmoid x \<le> sigmoid y"
  by (simp add: sigmoid_def frac_le add_pos_pos)

lemma sigmoid_zero: "sigmoid 0 = 1 / 2"
  by (simp add: sigmoid_def)

lemma compress_mono: "x \<le> y \<Longrightarrow> compress x \<le> compress y"
  using sigmoid_mono [of "2.5 * x" "2.5 * y"] by (simp add: compress_def)

lemma compress_upper: "compress x < 0.95"
  using sigmoid_less_one [of "2.5 * x"] by (simp add: compress_def)

lemma compress_nonneg: "0 \<le> x \<Longrightarrow> 0 \<le> compress x"
  using sigmoid_mono [of 0 "2.5 * x"] by (simp add: compress_def sigmoid_zero)

subsection \<open>Ranges, loops and slices\<close>

lemma range_from_pos:
  "0 < step \<Longrightarrow>
   range_from i stop step = map (\<lambda>k. i + int k * step) [0..<nat ((stop - i + step - 1) div step)]"
proof (induction i stop step rule: range_from.induct)
  case (1 i stop step)
  show ?case
  proof (cases "i < stop")
    case True
    have d: "(stop - i + step - 1) div step = (stop - i - 1) div step + 1"
      using 1(3) by (metis add.commute add_diff_eq div_add_self1 less_irrefl diff_add_eq)
    have nn: "0 \<le> (stop - i - 1) div step"
      using True 1(3) by (simp add: pos_imp_zdiv_nonneg_iff)
    have n: "nat ((stop - i + step - 1) div step) = Suc (nat ((stop - i - 1) div step))"
      using d nn by simp
    have ih: "range_from (i + step) stop step =
        map (\<lambda>k. i + step + int k * step) [0..<nat ((stop - i - 1) div step)]"
      using 1(1) [OF _ 1(3)] True 1(3) by (simp add: algebra_simps)
    have "range_from i stop step = i # range_from (i + step) stop step"
      using True 1(3) by (subst range_from.simps) simp
    also have "\<dots> = map (\<lambda>k. i + int k * step) [0..<Suc (nat ((stop - i - 1) div step))]"
      unfolding ih map_upt_Suc by (simp add: algebra_simps)
    finally show ?thesis
      unfolding n .
  next
    case False
    then have "(stop - i + step - 1) div step \<le> (step - 1) div step"
      using 1(3) by (intro zdiv_mono1) simp_all
    then have "(stop - i + step - 1) div step \<le> 0"
      using 1(3) by simp
    then show ?thesis
      using False 1(3) by (subst range_from.simps) simp
  qed
qed

lemma omap_Returns_iff:
  "omap f xs = Returns ys \<longleftrightarrow> list_all2 (\<lambda>x y. f x = Returns y) xs ys"
proof (induction xs arbitrary: ys)
  case Nil
  show ?case by auto
next
  case (Cons x xs)
  show ?case
    by (cases ys) (auto simp: obind_Returns_iff Cons.IH)
qed

lemma omap_Returns_map:
  "(\<And>x. x \<in> set xs \<Longrightarrow> f x = Returns (g x)) \<Longrightarrow> omap f xs = Returns (map g xs)"
  by (induction xs) simp_all

lemma py_slice_inside:
  assumes "0 \<le> a" "a \<le> b" "b \<le> int (length xs)"
  shows "py_slice xs a b = take (nat (b - a)) (drop (nat a) xs)"
    and "length (py_slice xs a b) = nat (b - a)"
proof -
  have lo: "slice_bound (length xs) a = nat a"
    using assms by (simp add: slice_bound_def)
  have hi: "slice_bound (length xs) b = nat b"
    using assms by (simp add: slice_bound_def)
  have sub: "nat b - nat a = nat (b - a)"
    using assms by simp
  show "py_slice xs a b = take (nat (b - a)) (drop (nat a) xs)"
    by (simp add: py_slice_def lo hi sub)
  then show "length (py_slice xs a b) = nat (b - a)"
    using assms by simp
qed

lemma range_from_pos_bounds:
  assumes "0 < step" "x \<in> set (range_from i stop step)"
  shows "i \<le> x \<and> x < stop"
  using assms
proof (induction i stop step rule: range_from.induct)
  case (1 i stop step)
  from 1(4) have "i < stop" and mem: "x = i \<or> x \<in> set (range_from (i + step) stop step)"
    using 1(3) by (subst (asm) range_from.simps; simp split: if_splits)+
  from mem show ?case
  proof
    assume "x = i"
    with \<open>i < stop\<close> show ?thesis by simp
  next
    assume "x \<in> set (range_from (i + step) stop step)"
    with 1(1) [OF _ 1(3)] \<open>i < stop\<close> 1(3) show ?thesis by simp
  qed
qed

subsection \<open>The envelope\<close>

lemma pooled_nonneg: "pooled fr = Returns v \<Longrightarrow> 0 \<le> v"
proof -
  have "0 \<le> sum_list (map (\<lambda>x. max x 0) fr)"
    by (rule sum_list_nonneg) auto
  moreover assume "pooled fr = Returns v"
  ultimately show ?thesis
    by (auto simp: pooled_def split: if_splits)
qed

lemma pooled_full: "fr \<noteq> [] \<Longrightarrow> pooled fr = Returns (mean (map (\<lambda>x. max x 0) fr))"
  by (simp add: pooled_def mean_def)

lemma envelope_values:
  assumes "envelope wav window stride = Returns out" "v \<in> set out"
  shows "0 \<le> v \<and> v < 0.95"
proof -
  from assms(1) obtain pooled_vals offs padded where
    p: "omap (\<lambda>off. pooled (py_slice padded off (off + window))) offs = Returns pooled_vals"
    and out: "out = map compress pooled_vals"
    by (auto simp: envelope_def obind_Returns_iff)
  from assms(2) out obtain u where u: "u \<in> set pooled_vals" and v: "v = compress u"
    by auto
  from p have "list_all2 (\<lambda>off y. pooled (py_slice padded off (off + window)) = Returns y) offs pooled_vals"
    by (simp add: omap_Returns_iff)
  with u obtain off where "pooled (py_slice padded off (off + window)) = Returns u"
    by (auto simp: in_set_conv_nth list_all2_conv_all_nth)
  then have "0 \<le> u" by (rule pooled_nonneg)
  then show ?thesis
    using compress_nonneg [of u] compress_upper [of u] v by simp
qed


lemma envelope_returns:
  assumes "1 \<le> window" "1 \<le> stride"
  shows "envelope wav window stride =
     Returns (map (\<lambda>off. compress (mean (map (\<lambda>x. max x 0)
                 (take (nat window) (drop (nat off) (padded_wav wav window))))))
               (range_from 0 (int (length (padded_wav wav window)) - window) stride))"
proof -
  let ?p = "padded_wav wav window"
  let ?offs = "range_from 0 (int (length ?p) - window) stride"
  have pad: "np_pad wav (window div 2) (window div 2) = Returns ?p"
    using assms(1) by (simp add: np_pad_def padded_wav_def)
  have rng: "py_range (int (length ?p) - window) stride = Returns ?offs"
    using assms(2) by (simp add: py_range_def)
  have each: "pooled (py_slice ?p off (off + window)) =
        Returns (mean (map (\<lambda>x. max x 0) (take (nat window) (drop (nat off) ?p))))"
    if "off \<in> set ?offs" for off
  proof -
    from that assms(2) have b: "0 \<le> off \<and> off < int (length ?p) - window"
      using range_from_pos_bounds [of stride off 0 "int (length ?p) - window"] by simp
    then have sl: "py_slice ?p off (off + window) = take (nat window) (drop (nat off) ?p)"
      and len: "length (py_slice ?p off (off + window)) = nat window"
      using py_slice_inside [of off "off + window" ?p] assms(1) by simp_all
    from len assms(1) have "py_slice ?p off (off + window) \<noteq> []"
      by auto
    then show ?thesis
      using sl by (simp add: pooled_full)
  qed
  show ?thesis
    unfolding envelope_def pad obind_simps rng
    by (simp add: omap_Returns_map [where g = "\<lambda>off. mean (map (\<lambda>x. max x 0) (take (nat window) (drop (nat off) ?p)))", OF each] comp_def)
qed

lemma length_padded_wav: "0 \<le> window \<Longrightarrow> int (length (padded_wav wav window)) = int (length wav) + 2 * (window div 2)"
  by (simp add: padded_wav_def)

lemma ceiling_div_pos:
  fixes L s :: int
  assumes "0 < s"
  shows "\<lceil>real_of_int L / real_of_int s\<rceil> = (L + s - 1) div s"
proof (rule ceiling_unique)
  let ?z = "(L + s - 1) div s"
  have eq: "L + s - 1 = s * ?z + (L + s - 1) mod s"
    by simp
  have m: "0 \<le> (L + s - 1) mod s" "(L + s - 1) mod s < s"
    using assms by simp_all
  have up: "L \<le> s * ?z"
    using eq m by linarith
  have lo: "s * ?z - s < L"
    using eq m by linarith
  have "real_of_int L \<le> real_of_int (s * ?z)"
    using up by (simp only: of_int_le_iff)
  then show "real_of_int L / real_of_int s \<le> of_int ?z"
    using assms by (simp add: field_simps)
  have "real_of_int (s * ?z - s) < real_of_int L"
    using lo by (simp only: of_int_less_iff)
  then show "of_int ?z - 1 < real_of_int L / real_of_int s"
    using assms by (simp add: field_simps)
qed

lemma envelope_length_div:
  assumes "1 \<le> window" "1 \<le> stride" "envelope wav window stride = Returns out"
  shows "length out = nat ((int (length (padded_wav wav window)) - window + stride - 1) div stride)"
proof -
  from assms(3) envelope_returns [OF assms(1,2), of wav]
  have "length out = length (range_from 0 (int (length (padded_wav wav window)) - window) stride)"
    by auto
  then show ?thesis
    using assms(2) by (simp add: range_from_pos)
qed

lemma envelope_nth:
  assumes "1 \<le> window" "1 \<le> stride" "envelope wav window stride = Returns out" "k < length out"
  shows "int k * stride + window < int (length (padded_wav wav window))"
    and "out ! k = compress (mean (map (\<lambda>x. max x 0)
           (take (nat window) (drop (nat (int k * stride)) (padded_wav wav window)))))"
proof -
  let ?p = "padded_wav wav window"
  let ?offs = "range_from 0 (int (length ?p) - window) stride"
  from assms(3) envelope_returns [OF assms(1,2), of wav]
  have out: "out = map (\<lambda>off. compress (mean (map (\<lambda>x. max x 0) (take (nat window) (drop (nat off) ?p))))) ?offs"
    by simp
  with assms(4) have k: "k < length ?offs" by simp
  have offs: "?offs ! k = int k * stride"
    using k assms(2) by (simp add: range_from_pos)
  from k have "?offs ! k \<in> set ?offs" by (rule nth_mem)
  with range_from_pos_bounds [of stride "?offs ! k" 0 "int (length ?p) - window"] assms(2)
  show "int k * stride + window < int (length ?p)"
    unfolding offs by simp
  show "out ! k = compress (mean (map (\<lambda>x. max x 0)
           (take (nat window) (drop (nat (int k * stride)) ?p))))"
    using k by (simp add: out offs)
qed

subsection \<open>Parameters that make the extraction fail\<close>




subsection \<open>Downmix and normalisation\<close>

lemma foldl_add_channels:
  assumes "length ch = n" "list_all (\<lambda>c. length c = n) chs"
  shows "length (foldl (map2 (+)) ch chs) = n \<and>
     (\<forall>j<n. foldl (map2 (+)) ch chs ! j = ch ! j + (\<Sum>c\<leftarrow>chs. c ! j))"
  using assms
proof (induction chs arbitrary: ch)
  case Nil
  then show ?case by simp
next
  case (Cons c chs)
  have l: "length (map2 (+) ch c) = n"
    using Cons.prems by simp
  have r: "list_all (\<lambda>c. length c = n) chs"
    using Cons.prems by simp
  from Cons.IH [OF l r] Cons.prems show ?case
    by (simp add: add.assoc)
qed

lemma mean0_rectangular:
  assumes "rectangular wav n"
  shows "\<exists>m. mean0 wav = Returns m \<and> length m = n \<and>
     (\<forall>j<n. m ! j = (\<Sum>ch\<leftarrow>wav. ch ! j) / real (length wav))"
proof -
  from assms obtain ch chs where w: "wav = ch # chs"
    by (cases wav) (auto simp: rectangular_def)
  with assms have "length ch = n" "list_all (\<lambda>c. length c = n) chs"
    by (simp_all add: rectangular_def)
  from foldl_add_channels [OF this] show ?thesis
    by (simp add: mean0_def w)
qed

lemma mean0_single: "mean0 [m] = Returns m"
  by (simp add: mean0_def)

lemma visualize_mono_downmix:
  assumes "mean0 wav = Returns m"
  shows "visualize fs audioID wav sr rate b speed time oversample fg fg2 bg sz False =
         visualize fs audioID [m] sr rate b speed time oversample fg fg2 bg sz False"
  by (simp add: visualize_def prepare_def select_channels_def assms mean0_single)

lemma finite_array_map_Finite: "finite_array (map Finite xs) = Returns xs"
  by (induction xs) simp_all

lemma finite_array_Nonfinite:
  "x \<in> set xs \<Longrightarrow> (\<And>r. x \<noteq> Finite r) \<Longrightarrow> finite_array xs = Nonfinite"
proof (induction xs)
  case Nil
  then show ?case by simp
next
  case (Cons a xs)
  then show ?case by (cases a) auto
qed

lemma mean_square_dev_nonneg: "0 \<le> mean (map (\<lambda>x. (x - c)\<^sup>2) xs)"
proof -
  have "0 \<le> sum_list (map (\<lambda>x. (x - c)\<^sup>2) xs)"
    by (rule sum_list_nonneg) auto
  then show ?thesis
    by (simp add: mean_def)
qed

lemma np_std_nonempty:
  assumes "wav \<noteq> []"
  shows "np_std wav = Finite (std_dev wav)"
  using assms by (simp add: np_std_def)

lemma normalize_nonzero:
  assumes "np_std wav = Finite s" "s \<noteq> 0"
  shows "divide_by_std wav = map (\<lambda>x. Finite (x / s)) wav"
    and "finite_array (divide_by_std wav) = Returns (map (\<lambda>x. x / s) wav)"
proof -
  show n: "divide_by_std wav = map (\<lambda>x. Finite (x / s)) wav"
    using assms by (simp add: divide_by_std_def)
  have "map (\<lambda>x. Finite (x / s)) wav = map Finite (map (\<lambda>x. x / s) wav)"
    by simp
  then show "finite_array (divide_by_std wav) = Returns (map (\<lambda>x. x / s) wav)"
    unfolding n by (simp only: finite_array_map_Finite)
qed

lemma normalize_zero:
  assumes "np_std wav = Finite 0" "wav \<noteq> []"
  shows "divide_by_std wav = map (\<lambda>x. if x = 0 then NaN else if 0 < x then PosInf else NegInf) wav"
    and "finite_array (divide_by_std wav) = Nonfinite"
proof -
  show n: "divide_by_std wav = map (\<lambda>x. if x = 0 then NaN else if 0 < x then PosInf else NegInf) wav"
    using assms by (simp add: divide_by_std_def)
  from assms(2) have "divide_by_std wav \<noteq> []"
    by (simp add: divide_by_std_def)
  then have "hd (divide_by_std wav) \<in> set (divide_by_std wav)"
    by (rule hd_in_set)
  moreover have "hd (divide_by_std wav) \<noteq> Finite r" for r
    using assms(2) unfolding n by (cases wav) auto
  ultimately show "finite_array (divide_by_std wav) = Nonfinite"
    by (rule finite_array_Nonfinite)
qed


lemma normalize_channel_cases:
  assumes "w \<noteq> []"
  shows "std_dev w \<noteq> 0 \<Longrightarrow> finite_array (divide_by_std w) = Returns (map (\<lambda>x. x / std_dev w) w)"
    and "std_dev w = 0 \<Longrightarrow> finite_array (divide_by_std w) = Nonfinite"
    and "std_dev w = 0 \<Longrightarrow>
         divide_by_std w = map (\<lambda>x. if x = 0 then NaN else if 0 < x then PosInf else NegInf) w"
  using normalize_nonzero(2) [of w "std_dev w"] normalize_zero [of w] np_std_nonempty [OF assms] assms
  by simp_all



subsection \<open>Rendering\<close>

lemma omap_returns_some:
  "(\<And>x. x \<in> set xs \<Longrightarrow> \<exists>y. f x = Returns y) \<Longrightarrow> \<exists>ys. omap f xs = Returns ys"
proof (induction xs)
  case Nil
  then show ?case by simp
next
  case (Cons a xs)
  from Cons.prems [of a] obtain y where "f a = Returns y" by auto
  moreover from Cons.IH Cons.prems obtain ys where "omap f xs = Returns ys" by auto
  ultimately show ?case by simp
qed

lemma strokes_concat:
  assumes "\<And>x src rest. x \<in> set xs \<Longrightarrow>
           \<exists>src'. strokes src lw [] (blk x @ rest) = g x @ strokes src' lw [] rest"
  shows "\<exists>src'. strokes src lw [] (concat (map blk xs) @ rest) =
           concat (map g xs) @ strokes src' lw [] rest"
  using assms
proof (induction xs arbitrary: src)
  case Nil
  have "strokes src lw [] (concat (map blk []) @ rest) =
      concat (map g []) @ strokes src lw [] rest"
    by simp
  then show ?case by (rule exI)
next
  case (Cons a xs)
  from Cons.prems [of a src "concat (map blk xs) @ rest"]
  obtain src1 where 1: "strokes src lw [] (blk a @ concat (map blk xs) @ rest) =
      g a @ strokes src1 lw [] (concat (map blk xs) @ rest)"
    by auto
  from Cons.IH [of src1] Cons.prems
  obtain src2 where 2: "strokes src1 lw [] (concat (map blk xs) @ rest) =
      concat (map g xs) @ strokes src2 lw [] rest"
    by auto
  have "strokes src lw [] (concat (map blk (a # xs)) @ rest) =
      concat (map g (a # xs)) @ strokes src2 lw [] rest"
    using 1 2 by simp
  then show ?case by (rule exI)
qed

lemma concat_concat_map: "concat (concat xss) = concat (map concat xss)"
  by (induction xss) simp_all

lemma draw_bar_returns:
  assumes "i < length envs" "step < length (envs ! i)" "i < length fg_colors"
  shows "draw_bar envs fg_colors pad delta step i =
     Returns [SetSourceRGB (fst (fg_colors ! i)) (fst (snd (fg_colors ! i))) (snd (snd (fg_colors ! i))),
              MoveTo (pad + real step * delta)
                ((1 + 2 * real i) / (2 * real (length envs)) - 0.5 * (envs ! i ! step) / real (length envs)),
              LineTo (pad + real step * delta) ((1 + 2 * real i) / (2 * real (length envs))),
              Stroke,
              SetSourceRGBA (fst (fg_colors ! i)) (fst (snd (fg_colors ! i))) (snd (snd (fg_colors ! i))) 0.8,
              MoveTo (pad + real step * delta) ((1 + 2 * real i) / (2 * real (length envs))),
              LineTo (pad + real step * delta)
                ((1 + 2 * real i) / (2 * real (length envs)) + 0.9 * (0.5 * (envs ! i ! step) / real (length envs))),
              Stroke]"
  using assms by (simp add: draw_bar_def Let_def split: prod.splits)

subsection \<open>Reaching the frame loop\<close>

lemma finite_array_length: "finite_array xs = Returns ys \<Longrightarrow> length ys = length xs"
proof (induction xs arbitrary: ys)
  case Nil
  then show ?case by simp
next
  case (Cons a xs)
  then show ?case by (cases a) (auto simp: obind_Returns_iff)
qed

lemma normalized_length:
  "finite_array (divide_by_std w) = Returns w' \<Longrightarrow> length w' = length w"
  using finite_array_length [of "divide_by_std w" w'] by (simp add: divide_by_std_def)

lemma select_channels_lengths:
  assumes "rectangular wav n" "select_channels stereo wav = Returns wavs"
  shows "wavs \<noteq> [] \<and> list_all (\<lambda>w. length w = n) wavs \<and> length wavs = (if stereo then 2 else 1)"
proof (cases stereo)
  case True
  with assms(2) have l: "length wav = 2" and w: "wavs = [wav ! 0, wav ! 1]"
    by (auto simp: select_channels_def split: if_splits)
  from assms(1) l have "length (wav ! 0) = n" "length (wav ! 1) = n"
    by (simp_all add: rectangular_def list_all_length)
  with w True show ?thesis by simp
next
  case False
  from mean0_rectangular [OF assms(1)] obtain m where "mean0 wav = Returns m" "length m = n"
    by blast
  with assms(2) False show ?thesis
    by (auto simp: select_channels_def)
qed

lemma off_times_bars_bound:
  fixes off b stride L :: int
  assumes "1 \<le> stride" "off * b * stride \<le> L"
  shows "off * b \<le> (L + stride - 1) div stride"
proof -
  have "off * b = (off * b * stride) div stride"
    using assms(1) by simp
  also have "\<dots> \<le> (L + stride - 1) div stride"
    using assms by (intro zdiv_mono1) simp_all
  finally show ?thesis .
qed

lemma frame_pos_bounds:
  assumes "0 < rate" "0 < sr" "1 \<le> stride" "1 \<le> b"
    and "idx < nat (py_int (rate * (real n / sr)))"
  defines "pos \<equiv> real idx / rate * sr / of_int stride / of_int b"
  shows "0 \<le> pos" and "py_int pos = \<lfloor>pos\<rfloor>" and "0 \<le> py_int pos"
    and "py_int pos * b * stride < int n"
proof -
  show p: "0 \<le> pos"
    using assms(1-4) by (simp add: pos_def)
  then show f: "py_int pos = \<lfloor>pos\<rfloor>"
    by (simp add: py_int_def)
  show "0 \<le> py_int pos"
    using p f by simp
  have q: "0 \<le> rate * (real n / sr)"
    using assms(1,2) by simp
  then have "py_int (rate * (real n / sr)) = \<lfloor>rate * (real n / sr)\<rfloor>"
    by (simp add: py_int_def)
  with assms(5) have "int idx < \<lfloor>rate * (real n / sr)\<rfloor>"
    by simp
  then have "int idx + 1 \<le> \<lfloor>rate * (real n / sr)\<rfloor>"
    by simp
  then have "real_of_int (int idx + 1) \<le> rate * (real n / sr)"
    by (simp only: le_floor_iff)
  then have "real idx + 1 \<le> rate * (real n / sr)"
    by simp
  then have "real idx < rate * real n / sr"
    by simp
  then have "real idx * sr < rate * real n"
    using assms(2) by (simp add: field_simps)
  then have lt: "real idx / rate * sr < real n"
    using assms(1) by (simp add: field_simps)
  have "pos * (of_int b * of_int stride) = real idx / rate * sr"
    using assms(3,4) by (simp add: pos_def)
  moreover have "of_int \<lfloor>pos\<rfloor> * (of_int b * of_int stride) \<le> pos * (of_int b * of_int stride)"
    using assms(3,4) by (intro mult_right_mono) simp_all
  ultimately have "of_int \<lfloor>pos\<rfloor> * (of_int b * of_int stride) < real n"
    using lt by linarith
  then have "real_of_int (\<lfloor>pos\<rfloor> * b * stride) < real_of_int (int n)"
    by (simp add: mult.assoc)
  then have "\<lfloor>pos\<rfloor> * b * stride < int n"
    by (simp only: of_int_less_iff)
  then show "py_int pos * b * stride < int n"
    by (simp add: f)
qed

lemma np_pad_env: "0 \<le> b \<Longrightarrow> np_pad e (b div 2) (2 * b) = Returns (padded_env e b)"
  by (simp add: np_pad_def padded_env_def)

lemma length_padded_env:
  "0 \<le> b \<Longrightarrow> int (length (padded_env e b)) = b div 2 + int (length e) + 2 * b"
  by (simp add: padded_env_def)

lemma padded_env_nonneg:
  assumes "\<forall>v\<in>set e. 0 \<le> v" "x \<in> set (padded_env e b)"
  shows "0 \<le> x"
  using assms by (auto simp: padded_env_def)

lemma envelope_length_lower:
  assumes "1 \<le> window" "1 \<le> stride" "envelope w window stride = Returns e"
    and "0 \<le> k" "k * stride < int (length w)"
  shows "k \<le> int (length e)"
proof -
  let ?L = "int (length (padded_wav w window)) - window"
  have "2 * (window div 2) \<ge> window - 1"
    by presburger
  then have L: "int (length w) - 1 \<le> ?L"
    using assms(1) by (simp add: length_padded_wav)
  then have "k * 1 * stride \<le> ?L"
    using assms(5) by simp
  with assms(2) have "k * 1 \<le> (?L + stride - 1) div stride"
    by (rule off_times_bars_bound)
  moreover have "length e = nat ((?L + stride - 1) div stride)"
    using assms(1-3) by (rule envelope_length_div)
  ultimately show ?thesis
    using assms(4) by simp
qed

lemma env_windows_length:
  assumes "1 \<le> window" "1 \<le> stride" "1 \<le> b" "envelope w window stride = Returns e"
    and "0 \<le> off" "off * b * stride < int (length w)"
  shows "py_slice (padded_env e b) (off * b) ((off + 1) * b) =
           take (nat b) (drop (nat (off * b)) (padded_env e b))"
    and "py_slice (padded_env e b) ((off + 1) * b) ((off + 2) * b) =
           take (nat b) (drop (nat ((off + 1) * b)) (padded_env e b))"
    and "length (py_slice (padded_env e b) (off * b) ((off + 1) * b)) = nat b"
    and "length (py_slice (padded_env e b) ((off + 1) * b) ((off + 2) * b)) = nat b"
proof -
  have ob: "0 \<le> off * b"
    using assms(3,5) by simp
  have "off * b \<le> int (length e)"
    using assms(1,2,4) ob assms(6) by (rule envelope_length_lower)
  moreover have "0 \<le> b div 2"
    using assms(3) by simp
  ultimately have top: "(off + 2) * b \<le> int (length (padded_env e b))"
    using assms(3) by (simp add: length_padded_env algebra_simps)
  have le1: "off * b \<le> (off + 1) * b" and le2: "(off + 1) * b \<le> (off + 2) * b"
    using assms(3) by (simp_all add: algebra_simps)
  have d1: "(off + 1) * b - off * b = b" and d2: "(off + 2) * b - (off + 1) * b = b"
    by (simp_all add: algebra_simps)
  have ob1: "0 \<le> (off + 1) * b"
    using ob le1 by simp
  have t1: "(off + 1) * b \<le> int (length (padded_env e b))"
    using le2 top by simp
  show "py_slice (padded_env e b) (off * b) ((off + 1) * b) =
           take (nat b) (drop (nat (off * b)) (padded_env e b))"
    using py_slice_inside(1) [OF ob le1 t1] by (simp only: d1)
  show "py_slice (padded_env e b) ((off + 1) * b) ((off + 2) * b) =
           take (nat b) (drop (nat ((off + 1) * b)) (padded_env e b))"
    using py_slice_inside(1) [OF ob1 le2 top] by (simp only: d2)
  show "length (py_slice (padded_env e b) (off * b) ((off + 1) * b)) = nat b"
    using py_slice_inside(2) [OF ob le1 t1] by (simp only: d1)
  show "length (py_slice (padded_env e b) ((off + 1) * b) ((off + 2) * b)) = nat b"
    using py_slice_inside(2) [OF ob1 le2 top] by (simp only: d2)
qed

lemma envelope_Returns_D:
  assumes "envelope w window stride = Returns e"
  shows "0 \<le> window" and "stride \<noteq> 0"
proof -
  from assms obtain p where p: "np_pad w (window div 2) (window div 2) = Returns p"
    and r: "\<exists>offs. py_range (int (length p) - window) stride = Returns offs"
    by (auto simp: envelope_def obind_Returns_iff)
  from p have "0 \<le> window div 2"
    by (auto simp: np_pad_def split: if_splits)
  then show "0 \<le> window"
    by simp
  from r show "stride \<noteq> 0"
    by (auto simp: py_range_def split: if_splits)
qed

lemma np_pad_Returns_D:
  assumes "np_pad e (b div 2) (2 * b) = Returns env"
  shows "0 \<le> b" and "env = padded_env e b"
proof -
  from assms have "\<not> (b div 2 < 0 \<or> 2 * b < 0)"
    by (auto simp: np_pad_def split: if_splits)
  then show "0 \<le> b" by simp
  then show "env = padded_env e b"
    using assms by (simp add: np_pad_env)
qed

lemma derived_stride_positive:
  assumes "0 < oversample" "0 \<le> window" "py_int (of_int window / oversample) \<noteq> 0"
  shows "1 \<le> window" and "1 \<le> py_int (of_int window / oversample)"
proof -
  have q: "0 \<le> real_of_int window / oversample"
    using assms(1,2) by simp
  then have s: "py_int (of_int window / oversample) = \<lfloor>real_of_int window / oversample\<rfloor>"
    by (simp add: py_int_def)
  with q have "0 \<le> py_int (of_int window / oversample)"
    by simp
  with assms(3) show "1 \<le> py_int (of_int window / oversample)"
    by simp
  have "window \<noteq> 0"
    using assms(3) by (auto simp: py_int_def)
  with assms(2) show "1 \<le> window"
    by simp
qed

lemma extract_envelopes_Returns_D:
  assumes "extract_envelopes wavs sr rate b time oversample = Returns (envs, stride, frames, smooth)"
    and "0 < oversample"
  shows "\<exists>window. 1 \<le> window \<and> 1 \<le> stride \<and> 1 \<le> b \<and> sr \<noteq> 0 \<and> wavs \<noteq> [] \<and>
     derive_window sr time b = Returns window \<and> derive_stride window oversample = Returns stride \<and>
     frames = py_int (rate * (real (length (hd wavs)) / sr)) \<and> smooth = np_hanning b \<and>
     list_all2 (\<lambda>w env. \<exists>e. envelope w window stride = Returns e \<and> env = padded_env e b) wavs envs"
proof -
  from assms(1) obtain window stride' envs' where
    w: "derive_window sr time b = Returns window"
    and s: "derive_stride window oversample = Returns stride'"
    and e: "omap (\<lambda>w. obind (envelope w window stride') (\<lambda>env. np_pad env (b div 2) (2 * b))) wavs
              = Returns envs'"
    and c: "(case wavs of [] \<Rightarrow> Raises IndexError
             | w0 # _ \<Rightarrow> obind (frame_count rate sr (length w0)) (\<lambda>frames.
                 Returns (envs', stride', frames, np_hanning b))) = Returns (envs, stride, frames, smooth)"
    by (auto simp: extract_envelopes_def obind_Returns_iff)
  from c obtain w0 ws where wavs: "wavs = w0 # ws"
    by (cases wavs) auto
  with c have fc: "frame_count rate sr (length w0) = Returns frames"
    and eq: "envs' = envs" "stride' = stride" "smooth = np_hanning b"
    by (auto simp: obind_Returns_iff)
  from fc have sr: "sr \<noteq> 0" and fr: "frames = py_int (rate * (real (length w0) / sr))"
    by (auto simp: frame_count_def split: if_splits)
  from w have b0: "b \<noteq> 0" and wd: "window = py_int (sr * time / of_int b)"
    by (auto simp: derive_window_def split: if_splits)
  from s eq have sd: "stride = py_int (of_int window / oversample)"
    by (auto simp: derive_stride_def split: if_splits)
  from e eq have all: "list_all2 (\<lambda>w env. obind (envelope w window stride)
      (\<lambda>env. np_pad env (b div 2) (2 * b)) = Returns env) wavs envs"
    by (simp add: omap_Returns_iff)
  have each: "\<exists>e. envelope u window stride = Returns e \<and> env = padded_env e b \<and> 0 \<le> b"
    if "obind (envelope u window stride) (\<lambda>env. np_pad env (b div 2) (2 * b)) = Returns env"
    for u env
  proof -
    from that obtain e0 where "envelope u window stride = Returns e0"
      "np_pad e0 (b div 2) (2 * b) = Returns env"
      by (auto simp: obind_Returns_iff)
    then show ?thesis
      using np_pad_Returns_D [of e0 b env] by auto
  qed
  from all wavs obtain env0 where "obind (envelope w0 window stride)
      (\<lambda>env. np_pad env (b div 2) (2 * b)) = Returns env0"
    by (auto simp: list_all2_Cons1)
  from each [OF this] obtain e0 where e0: "envelope w0 window stride = Returns e0" and bn: "0 \<le> b"
    by auto
  from envelope_Returns_D [OF e0] have wn: "0 \<le> window" and sn: "stride \<noteq> 0"
    by simp_all
  from derived_stride_positive [OF assms(2) wn] sn sd
  have w1: "1 \<le> window" and s1: "1 \<le> stride"
    by simp_all
  have b1: "1 \<le> b"
    using bn b0 by simp
  have "list_all2 (\<lambda>w env. \<exists>e. envelope w window stride = Returns e \<and> env = padded_env e b) wavs envs"
    using all each by (auto elim!: list_all2_mono)
  then show ?thesis
    using w1 s1 b1 sr w s eq fr wavs by auto
qed

lemma extract_envelopes_returns:
  assumes "wavs \<noteq> []" "1 \<le> b" "oversample \<noteq> 0" "sr \<noteq> 0"
    and "1 \<le> py_int (sr * time / of_int b)"
    and "1 \<le> py_int (of_int (py_int (sr * time / of_int b)) / oversample)"
  shows "\<exists>envs. extract_envelopes wavs sr rate b time oversample =
     Returns (envs, py_int (of_int (py_int (sr * time / of_int b)) / oversample),
              py_int (rate * (real (length (hd wavs)) / sr)), np_hanning b)"
proof -
  let ?w = "py_int (sr * time / of_int b)"
  let ?s = "py_int (of_int ?w / oversample)"
  have 1: "derive_window sr time b = Returns ?w"
    using assms(2) by (simp add: derive_window_def)
  have 2: "derive_stride ?w oversample = Returns ?s"
    using assms(3) by (simp add: derive_stride_def)
  have "\<exists>env. obind (envelope u ?w ?s) (\<lambda>env. np_pad env (b div 2) (2 * b)) = Returns env" for u
    using envelope_returns [OF assms(5,6), of u] assms(2) by (simp add: np_pad_env)
  then obtain envs where 3: "omap (\<lambda>u. obind (envelope u ?w ?s) (\<lambda>env. np_pad env (b div 2) (2 * b))) wavs
      = Returns envs"
    using omap_returns_some [of wavs "\<lambda>u. obind (envelope u ?w ?s) (\<lambda>env. np_pad env (b div 2) (2 * b))"]
    by blast
  from assms(1) obtain w0 ws where wavs: "wavs = w0 # ws"
    by (cases wavs) auto
  have "extract_envelopes wavs sr rate b time oversample =
     Returns (envs, ?s, py_int (rate * (real (length (hd wavs)) / sr)), np_hanning b)"
    using 1 2 3 assms(4) by (simp add: extract_envelopes_def wavs frame_count_def)
  then show ?thesis by (rule exI)
qed

lemma prepare_Returns_D:
  assumes "prepare wav sr rate b time oversample stereo = Returns (envs, stride, frames, smooth)"
    and "rectangular wav n" "0 < oversample"
  shows "\<exists>window. 1 \<le> window \<and> 1 \<le> stride \<and> 1 \<le> b \<and> sr \<noteq> 0 \<and>
     frames = py_int (rate * (real n / sr)) \<and> smooth = np_hanning b \<and>
     envs \<noteq> [] \<and> length envs \<le> 2 \<and>
     (\<forall>env\<in>set envs. \<exists>w e. length w = n \<and> envelope w window stride = Returns e \<and>
         env = padded_env e b)"
proof -
  from assms(1) obtain wavs0 wavs where
    sel: "select_channels stereo wav = Returns wavs0"
    and nrm: "omap (\<lambda>w. finite_array (divide_by_std w)) wavs0 = Returns wavs"
    and ext: "extract_envelopes wavs sr rate b time oversample = Returns (envs, stride, frames, smooth)"
    by (auto simp: prepare_def obind_Returns_iff)
  from select_channels_lengths [OF assms(2) sel]
  have l0: "wavs0 \<noteq> []" "list_all (\<lambda>w. length w = n) wavs0" "length wavs0 \<le> 2"
    by (simp_all split: if_splits)
  from nrm have a2: "list_all2 (\<lambda>w w'. finite_array (divide_by_std w) = Returns w') wavs0 wavs"
    by (simp add: omap_Returns_iff)
  then have len: "length wavs = length wavs0"
    by (simp add: list_all2_lengthD)
  have ln: "length u = n" if "u \<in> set wavs" for u
  proof -
    from that obtain i where i: "i < length wavs" "u = wavs ! i"
      by (auto simp: in_set_conv_nth)
    with a2 len have "finite_array (divide_by_std (wavs0 ! i)) = Returns u"
      by (simp add: list_all2_conv_all_nth)
    then have "length u = length (wavs0 ! i)"
      by (rule normalized_length)
    with l0(2) i len show ?thesis
      by (simp add: list_all_length)
  qed
  from extract_envelopes_Returns_D [OF ext assms(3)] obtain window where
    x: "1 \<le> window" "1 \<le> stride" "1 \<le> b" "sr \<noteq> 0" "wavs \<noteq> []"
    "frames = py_int (rate * (real (length (hd wavs)) / sr))" "smooth = np_hanning b"
    and a: "list_all2 (\<lambda>w env. \<exists>e. envelope w window stride = Returns e \<and> env = padded_env e b) wavs envs"
    by blast
  from a have le: "length envs = length wavs"
    by (simp add: list_all2_lengthD)
  have "\<exists>w e. length w = n \<and> envelope w window stride = Returns e \<and> env = padded_env e b"
    if "env \<in> set envs" for env
  proof -
    from that obtain i where i: "i < length envs" "env = envs ! i"
      by (auto simp: in_set_conv_nth)
    with a le obtain e where "envelope (wavs ! i) window stride = Returns e" "env = padded_env e b"
      by (auto simp: list_all2_conv_all_nth)
    moreover have "length (wavs ! i) = n"
      using i le by (intro ln nth_mem) simp
    ultimately show ?thesis by blast
  qed
  moreover have "length (hd wavs) = n"
    using x(5) by (intro ln hd_in_set)
  ultimately show ?thesis
    using x le len l0 by auto
qed

subsection \<open>The blend\<close>








lemma frame_windows:
  assumes "prepare wav sr rate b time oversample stereo = Returns (envs, stride, frames, smooth)"
    and "rectangular wav n" "0 < sr" "0 < rate" "0 < oversample"
    and "env \<in> set envs" "idx < nat frames"
  defines "pos \<equiv> real idx / rate * sr / of_int stride / of_int b"
  shows "frame_pos idx rate sr stride b = Returns pos"
    and "0 \<le> pos" and "py_int pos = \<lfloor>pos\<rfloor>" and "1 \<le> b" and "smooth = np_hanning b"
    and "\<forall>v\<in>set env. 0 \<le> v"
    and "\<exists>e. env = padded_env e b"
    and "py_slice env (\<lfloor>pos\<rfloor> * b) ((\<lfloor>pos\<rfloor> + 1) * b) = take (nat b) (drop (nat (\<lfloor>pos\<rfloor> * b)) env)"
    and "py_slice env ((\<lfloor>pos\<rfloor> + 1) * b) ((\<lfloor>pos\<rfloor> + 2) * b) =
           take (nat b) (drop (nat ((\<lfloor>pos\<rfloor> + 1) * b)) env)"
    and "length (py_slice env (\<lfloor>pos\<rfloor> * b) ((\<lfloor>pos\<rfloor> + 1) * b)) = nat b"
    and "length (py_slice env ((\<lfloor>pos\<rfloor> + 1) * b) ((\<lfloor>pos\<rfloor> + 2) * b)) = nat b"
proof -
  from prepare_Returns_D [OF assms(1,2,5)] assms(6) obtain window w e where
    x: "1 \<le> window" "1 \<le> stride" "1 \<le> b" "sr \<noteq> 0"
    and fr: "frames = py_int (rate * (real n / sr))" and sm: "smooth = np_hanning b"
    and w: "length w = n" and e: "envelope w window stride = Returns e" and env: "env = padded_env e b"
    by blast
  show "1 \<le> b" by (rule x(3))
  show "smooth = np_hanning b" by (rule sm)
  show "\<exists>e. env = padded_env e b" using env by (rule exI)
  show "frame_pos idx rate sr stride b = Returns pos"
    using assms(4) x by (simp add: frame_pos_def pos_def)
  have idx: "idx < nat (py_int (rate * (real n / sr)))"
    using assms(7) fr by simp
  note fp = frame_pos_bounds [OF assms(4,3) x(2,3) idx, folded pos_def]
  show "0 \<le> pos" by (rule fp(1))
  show f: "py_int pos = \<lfloor>pos\<rfloor>" by (rule fp(2))
  have off0: "0 \<le> \<lfloor>pos\<rfloor>" and offn: "\<lfloor>pos\<rfloor> * b * stride < int (length w)"
    using fp(3,4) f w by simp_all
  have "\<forall>v\<in>set e. 0 \<le> v"
    using envelope_values [OF e] by blast
  then show "\<forall>v\<in>set env. 0 \<le> v"
    unfolding env using padded_env_nonneg [of e] by blast
  note wl = env_windows_length [OF x(1-3) e off0 offn, folded env]
  show "py_slice env (\<lfloor>pos\<rfloor> * b) ((\<lfloor>pos\<rfloor> + 1) * b) = take (nat b) (drop (nat (\<lfloor>pos\<rfloor> * b)) env)"
    by (rule wl(1))
  show "py_slice env ((\<lfloor>pos\<rfloor> + 1) * b) ((\<lfloor>pos\<rfloor> + 2) * b) =
           take (nat b) (drop (nat ((\<lfloor>pos\<rfloor> + 1) * b)) env)"
    by (rule wl(2))
  show "length (py_slice env (\<lfloor>pos\<rfloor> * b) ((\<lfloor>pos\<rfloor> + 1) * b)) = nat b"
    by (rule wl(3))
  show "length (py_slice env ((\<lfloor>pos\<rfloor> + 1) * b) ((\<lfloor>pos\<rfloor> + 2) * b)) = nat b"
    by (rule wl(4))
qed

lemma prepare_example:
  "\<exists>envs. prepare [[1, - 1, 1, - 1]] 4 2 2 1 1 False = Returns (envs, 2, 2, np_hanning 2) \<and> envs \<noteq> []"
proof -
  have n: "finite_array (divide_by_std [1, - 1, 1, - 1]) = Returns [1, - 1, 1, - 1]"
    using normalize_channel_cases(1) [of "[1, - 1, 1, - 1]"]
    by (simp add: std_dev_def mean_def)
  have w: "py_int (4 * 1 / of_int 2) = 2"
    by (simp add: py_int_def)
  have s: "py_int (of_int 2 / 1) = 2"
    by (simp add: py_int_def)
  have f: "py_int (2 * (real (length (hd [[1, - 1, 1, - 1 :: real]])) / 4)) = 2"
    by (simp add: py_int_def)
  from extract_envelopes_returns [of "[[1, - 1, 1, - 1]]" 2 1 4 1 2]
  obtain envs where e: "extract_envelopes [[1, - 1, 1, - 1]] 4 2 2 1 1 = Returns (envs, 2, 2, np_hanning 2)"
    unfolding w s f by auto
  then have p: "prepare [[1, - 1, 1, - 1]] 4 2 2 1 1 False = Returns (envs, 2, 2, np_hanning 2)"
    by (simp add: prepare_def select_channels_def mean0_single n)
  have r: "rectangular [[1, - 1, 1, - 1]] 4"
    by (simp add: rectangular_def)
  from prepare_Returns_D [OF p r] have "envs \<noteq> []"
    by auto
  with p show ?thesis by blast
qed

subsection \<open>File names and the frame loop\<close>















section \<open>The claims of the specification\<close>

text \<open>
  Claim C9. In exact arithmetic the compressor \<open>1.9 * (sigmoid (2.5 * x) - 0.5)\<close> is
  non-decreasing on arguments from 0 up, it is below 0.95 at every argument, and every
  value of an envelope that \<^verbatim>\<open>envelope\<close> returns lies in the interval from 0
  (included) to 0.95 (excluded).
\<close>

theorem compress_monotone_bounded:
  "(0 \<le> x \<and> x \<le> y \<longrightarrow> compress x \<le> compress y) \<and> compress z < 0.95 \<and>
   (envelope wav window stride = Returns out \<and> v \<in> set out \<longrightarrow> 0 \<le> v \<and> v < 0.95)"
  using compress_mono [of x y] compress_upper [of z] envelope_values [of wav window stride out v]
  by blast

theorem compress_monotone_bounded_witness:
  "(0::real) \<le> 1 \<and> (1::real) \<le> 2 \<and> compress 1 \<le> compress 2 \<and> compress 2 < 0.95 \<and>
   (\<exists>out. envelope [1, - 1, 1, - 1] 2 1 = Returns out \<and> out \<noteq> [] \<and>
      0 \<le> hd out \<and> hd out < 0.95)"
proof -
  obtain out where e: "envelope [1, - 1, 1, - 1] 2 1 = Returns out"
    using envelope_returns [of 2 1 "[1, - 1, 1, - 1]"] by simp
  have "length out = 4"
    using envelope_length_div [OF _ _ e] by (simp add: padded_wav_def)
  then have ne: "out \<noteq> []" by auto
  then have h: "hd out \<in> set out" by simp
  show ?thesis
    using compress_monotone_bounded [of 1 2 2 "[1, - 1, 1, - 1]" 2 1 out "hd out"] e ne h
    by auto
qed

text \<open>
  Claim C2, as the code has it. For \<open>window \<ge> stride \<ge> 1\<close> the envelope is computed on
  the waveform padded by \<open>window // 2\<close> zeros on each side, and its length is the
  ceiling (not the floor) of \<open>(padded_length - window) / stride\<close>, or 0 where that is
  negative: one value for each multiple of the stride below \<open>padded_length - window\<close>.
  Every pooled window is a full window of \<open>window\<close> samples that ends before the end
  of the padded array.
\<close>

theorem envelope_length_ceiling:
  assumes "1 \<le> stride" "stride \<le> window"
  shows "\<exists>out. envelope wav window stride = Returns out \<and>
     length out = nat \<lceil>(real (length (padded_wav wav window)) - real_of_int window) / real_of_int stride\<rceil> \<and>
     length (padded_wav wav window) = length wav + 2 * nat (window div 2) \<and>
     (\<forall>k<length out.
        int k * stride + window < int (length (padded_wav wav window)) \<and>
        out ! k = compress (mean (map (\<lambda>x. max x 0)
           (take (nat window) (drop (nat (int k * stride)) (padded_wav wav window))))))"
proof -
  from assms have w: "1 \<le> window" by simp
  obtain out where e: "envelope wav window stride = Returns out"
    using envelope_returns [OF w assms(1)] by simp
  have "(real (length (padded_wav wav window)) - real_of_int window) / real_of_int stride
      = real_of_int (int (length (padded_wav wav window)) - window) / real_of_int stride"
    by simp
  then have len: "length out = nat \<lceil>(real (length (padded_wav wav window)) - real_of_int window) / real_of_int stride\<rceil>"
    using envelope_length_div [OF w assms(1) e] assms(1)
    by (simp only: ceiling_div_pos) 
  have pl: "length (padded_wav wav window) = length wav + 2 * nat (window div 2)"
    by (simp add: padded_wav_def)
  show ?thesis
    using e len pl envelope_nth [OF w assms(1) e] by blast
qed

theorem envelope_length_ceiling_witness:
  "(1::int) \<le> 2 \<and> (2::int) \<le> 3 \<and>
   (\<exists>out. envelope [1, - 1, 1, - 1, 1] 3 2 = Returns out \<and> length out = 2)"
proof -
  have c: "\<lceil>(real (length (padded_wav [1, - 1, 1, - 1, 1] 3)) - real_of_int 3) / real_of_int 2\<rceil> = 2"
    by (simp add: padded_wav_def)
  show ?thesis
    using envelope_length_ceiling [of 2 3 "[1, - 1, 1, - 1, 1]"] unfolding c by auto
qed

text \<open>Eleven samples with window 2 and stride 2: the padded length is 13, the
  envelope has 6 values, the floor of \<open>(13 - 2) / 2\<close> is 5.\<close>

theorem envelope_length_floor_counterexample:
  "envelope [0, - 1, 0, - 1, 0, - 1, 0, - 1, 0, - 1, 0] 2 2 = Returns [0, 0, 0, 0, 0, 0] \<and>
   length (padded_wav [0, - 1, 0, - 1, 0, - 1, 0, - 1, 0, - 1, 0] 2) = 13 \<and>
   int (length [0, 0, 0, 0, 0, 0 :: real]) \<noteq> \<lfloor>(13 - 2) / (2 :: real)\<rfloor>"
proof -
  have r: "range_from 0 11 2 = [0, 2, 4, 6, 8, 10]"
    by (simp add: range_from_pos upt_rec)
  have f: "\<lfloor>(13 - 2) / (2 :: real)\<rfloor> = 5"
    by (simp add: floor_eq_iff)
  show ?thesis
    unfolding f
    by (simp add: envelope_returns padded_wav_def r mean_def compress_def sigmoid_def)
qed

text \<open>
  Claim C5. With \<^verbatim>\<open>stereo=True\<close> and a decoded input that does not have exactly two
  channels, \<^verbatim>\<open>visualize\<close> fails on its assertion (\<^verbatim>\<open>AssertionError\<close>, "stereo
  requires stereo audio file") and the working directory holds the same files as before:
  no frame was written.
\<close>

theorem stereo_needs_two_channels:
  assumes "length wav \<noteq> 2"
  shows "visualize fs audioID wav sr rate b speed time oversample fg fg2 bg sz True =
           (fs, Raises AssertionError)"
  using assms by (simp add: visualize_def prepare_def select_channels_def)

theorem stereo_needs_two_channels_witness:
  "length [[1, - 1, 1, - 1 :: real]] \<noteq> 2 \<and>
   visualize [] ''7'' [[1, - 1, 1, - 1]] 4 2 2 4 1 1 (0.2, 0.2, 0.2) (0.5, 0.3, 0.6) (1, 1, 1)
       (400, 400) True = ([], Raises AssertionError)"
  using stereo_needs_two_channels [of "[[1, - 1, 1, - 1]]" "[]" "''7''" 4 2 2 4 1 1
      "(0.2, 0.2, 0.2)" "(0.5, 0.3, 0.6)" "(1, 1, 1)" "(400, 400)"]
  by simp




text \<open>
  Claim C10. When \<^verbatim>\<open>stereo\<close> is false, a decoded input of any number of channels
  (at least one, all of \<open>n\<close> samples) is replaced by a single channel of \<open>n\<close> samples,
  each the sum of that sample over all channels divided by the number of channels, and
  the run is the run on that one channel: normalisation and envelope extraction see only
  the downmix. No channel count is rejected.
\<close>

theorem mono_downmix_averages_channels:
  assumes "rectangular wav n"
  shows "\<exists>m. select_channels False wav = Returns [m] \<and> length m = n \<and>
     (\<forall>j<n. m ! j = (\<Sum>ch\<leftarrow>wav. ch ! j) / real (length wav)) \<and>
     visualize fs audioID wav sr rate b speed time oversample fg fg2 bg sz False =
     visualize fs audioID [m] sr rate b speed time oversample fg fg2 bg sz False"
proof -
  from mean0_rectangular [OF assms] obtain m where m: "mean0 wav = Returns m"
    and l: "length m = n" and a: "\<forall>j<n. m ! j = (\<Sum>ch\<leftarrow>wav. ch ! j) / real (length wav)"
    by blast
  have "select_channels False wav = Returns [m]"
    by (simp add: select_channels_def m)
  then show ?thesis
    using l a visualize_mono_downmix [OF m] by blast
qed

theorem mono_downmix_averages_channels_witness:
  "rectangular [[1, 3], [3, 5], [5, 1]] 2 \<and> select_channels False [[1, 3], [3, 5], [5, 1]] = Returns [[3, 3]]"
proof -
  have r: "rectangular [[1, 3], [3, 5], [5, 1]] 2"
    by (simp add: rectangular_def)
  from mono_downmix_averages_channels [OF r, of "[]" "''7''" 4 2 2 4 1 1
      "(0.2, 0.2, 0.2)" "(0.5, 0.3, 0.6)" "(1, 1, 1)" "(400, 400)"]
  obtain m where s: "select_channels False [[1, 3], [3, 5], [5, 1]] = Returns [m]"
    and l: "length m = 2"
    and a: "\<forall>j<2. m ! j = (\<Sum>ch\<leftarrow>[[1, 3], [3, 5], [5, 1]]. ch ! j) / real (length [[1, 3], [3, 5], [5, 1 :: real]])"
    by blast
  have "m ! 0 = 3"
    using a [rule_format, of 0] by simp
  moreover have "m ! 1 = 3"
    using a [rule_format, of 1] by simp
  ultimately have "m ! 0 = 3" "m ! 1 = 3"
    by simp_all
  with l have "m = [3, 3]"
    by (cases m; cases "tl m") auto
  with r s show ?thesis by simp
qed





text \<open>
  Claim C8, as the code has it. For each of the \<open>T\<close> bar positions and each of the \<open>K\<close>
  channels, \<^verbatim>\<open>draw_env\<close> strokes two connected vertical segments that meet on the
  channel's midline \<open>(1 + 2 i) / (2 K)\<close>: an upper one in the channel's colour at full
  opacity, of height \<open>snapshot[i][t] / (2 K)\<close>, and a lower one at 80 percent opacity,
  of 0.9 times that height. These are all the strokes of a frame, bar position by bar
  position.
\<close>

theorem draw_env_strokes_bars:
  fixes envs :: "real list list" and T :: nat
  defines "K \<equiv> length envs"
  defines "width \<equiv> 1 / (real T * (1 + 2 * 0.1))"
  defines "xpos \<equiv> \<lambda>step. 0.1 * width + real step * (2 * (0.1 * width) + width)"
  defines "midrule \<equiv> \<lambda>i. (1 + 2 * real i) / (2 * real K)"
  defines "half \<equiv> \<lambda>i step. envs ! i ! step / (2 * real K)"
  assumes "envs \<noteq> []" "K \<le> length fg_colors" "0 < T" "list_all (\<lambda>e. length e = T) envs"
  shows "\<exists>ops. draw_env envs fg_colors bg sz = Returns (sz, ops) \<and>
     strokes (0, 0, 0, 1) 2 [] ops =
       concat (map (\<lambda>step. concat (map (\<lambda>i.
         [\<lparr>seg_from = (xpos step, midrule i - half i step), seg_to = (xpos step, midrule i),
           seg_rgba = (fst (fg_colors ! i), fst (snd (fg_colors ! i)), snd (snd (fg_colors ! i)), 1),
           seg_width = width\<rparr>,
          \<lparr>seg_from = (xpos step, midrule i), seg_to = (xpos step, midrule i + 0.9 * half i step),
           seg_rgba = (fst (fg_colors ! i), fst (snd (fg_colors ! i)), snd (snd (fg_colors ! i)), 0.8),
           seg_width = width\<rparr>]) [0..<K])) [0..<T])"
proof -
  let ?pad = "0.1 * width" and ?delta = "2 * (0.1 * width) + width"
  let ?r = "\<lambda>i. fst (fg_colors ! i)" and ?g = "\<lambda>i. fst (snd (fg_colors ! i))"
    and ?b = "\<lambda>i. snd (snd (fg_colors ! i))"
  let ?bar = "\<lambda>step i.
     [SetSourceRGB (?r i) (?g i) (?b i),
      MoveTo (?pad + real step * ?delta)
        ((1 + 2 * real i) / (2 * real (length envs)) - 0.5 * (envs ! i ! step) / real (length envs)),
      LineTo (?pad + real step * ?delta) ((1 + 2 * real i) / (2 * real (length envs))),
      Stroke,
      SetSourceRGBA (?r i) (?g i) (?b i) 0.8,
      MoveTo (?pad + real step * ?delta) ((1 + 2 * real i) / (2 * real (length envs))),
      LineTo (?pad + real step * ?delta)
        ((1 + 2 * real i) / (2 * real (length envs)) + 0.9 * (0.5 * (envs ! i ! step) / real (length envs))),
      Stroke]"
  let ?seg = "\<lambda>step i.
     [\<lparr>seg_from = (xpos step, midrule i - half i step), seg_to = (xpos step, midrule i),
       seg_rgba = (?r i, ?g i, ?b i, 1), seg_width = width\<rparr>,
      \<lparr>seg_from = (xpos step, midrule i), seg_to = (xpos step, midrule i + 0.9 * half i step),
       seg_rgba = (?r i, ?g i, ?b i, 0.8), seg_width = width\<rparr>]"
  from assms(6) obtain e0 es where envs: "envs = e0 # es"
    by (cases envs) auto
  with assms(9) have T: "length e0 = T"
    by simp
  have inner: "omap (draw_bar envs fg_colors ?pad ?delta step) [0..<K] = Returns (map (?bar step) [0..<K])"
    if "step < T" for step
  proof (rule omap_Returns_map)
    fix i assume "i \<in> set [0..<K]"
    then have i: "i < length envs" by (simp add: K_def)
    with assms(9) have "length (envs ! i) = T"
      by (simp add: list_all_length)
    with that have "step < length (envs ! i)" by simp
    moreover from i assms(7) have "i < length fg_colors" by (simp add: K_def)
    ultimately show "draw_bar envs fg_colors ?pad ?delta step i = Returns (?bar step i)"
      using i by (rule draw_bar_returns [rotated])
  qed
  have outer: "omap (\<lambda>step. omap (draw_bar envs fg_colors ?pad ?delta step) [0..<K]) [0..<T] =
      Returns (map (\<lambda>step. map (?bar step) [0..<K]) [0..<T])"
  proof (rule omap_Returns_map)
    fix step assume "step \<in> set [0..<T]"
    then have "step < T" by simp
    then show "omap (draw_bar envs fg_colors ?pad ?delta step) [0..<K] = Returns (map (?bar step) [0..<K])"
      by (rule inner)
  qed
  let ?prelude = "[Scale (of_int (fst sz)) (of_int (snd sz)),
      SetSourceRGB (fst bg) (fst (snd bg)) (snd (snd bg)), Rectangle 0 0 1 1, Fill, SetLineWidth width]"
  let ?body = "concat (map (\<lambda>step. concat (map (?bar step) [0..<K])) [0..<T])"
  have ret: "draw_env envs fg_colors bg sz = Returns (sz, ?prelude @ ?body)"
    using assms(8) outer
    by (simp add: draw_env_def envs T Let_def K_def width_def concat_concat_map comp_def
        split: prod.splits)
  have bar: "\<exists>src'. strokes src width [] (?bar step i @ rest) = ?seg step i @ strokes src' width [] rest"
    for step i src rest
  proof -
    have "strokes src width [] (?bar step i @ rest) =
        ?seg step i @ strokes (?r i, ?g i, ?b i, 0.8) width [] rest"
      by (simp add: xpos_def midrule_def half_def K_def)
    then show ?thesis by (rule exI)
  qed
  have row: "\<exists>src'. strokes src width [] (concat (map (?bar step) [0..<K]) @ rest) =
      concat (map (?seg step) [0..<K]) @ strokes src' width [] rest"
    for step src rest
    by (rule strokes_concat) (rule bar)
  have "\<exists>src'. strokes (fst bg, fst (snd bg), snd (snd bg), 1) width [] (?body @ []) =
      concat (map (\<lambda>step. concat (map (?seg step) [0..<K])) [0..<T]) @ strokes src' width [] []"
    by (rule strokes_concat) (rule row)
  then have "strokes (fst bg, fst (snd bg), snd (snd bg), 1) width [] ?body =
      concat (map (\<lambda>step. concat (map (?seg step) [0..<K])) [0..<T])"
    by simp
  then have "strokes (0, 0, 0, 1) 2 [] (?prelude @ ?body) =
      concat (map (\<lambda>step. concat (map (?seg step) [0..<K])) [0..<T])"
    by simp
  with ret show ?thesis by blast
qed


theorem draw_env_strokes_bars_witness:
  "[[1]] \<noteq> ([] :: real list list) \<and>
   length [[1 :: real]] \<le> length [(0.2, 0.2, 0.2), (0.5, 0.3, 0.6) :: colour] \<and>
   (0 :: nat) < 1 \<and> list_all (\<lambda>e. length e = 1) [[1 :: real]] \<and>
   (\<exists>ops. draw_env [[1]] [(0.2, 0.2, 0.2), (0.5, 0.3, 0.6)] (1, 1, 1) (400, 400) =
        Returns ((400, 400), ops) \<and>
      strokes (0, 0, 0, 1) 2 [] ops =
        [\<lparr>seg_from = (1 / 12, 0), seg_to = (1 / 12, 1 / 2), seg_rgba = (0.2, 0.2, 0.2, 1),
           seg_width = 5 / 6\<rparr>,
         \<lparr>seg_from = (1 / 12, 1 / 2), seg_to = (1 / 12, 0.95), seg_rgba = (0.2, 0.2, 0.2, 0.8),
           seg_width = 5 / 6\<rparr>])"
  using draw_env_strokes_bars [of "[[1]]" "[(0.2, 0.2, 0.2), (0.5, 0.3, 0.6)]" 1 "(1, 1, 1)" "(400, 400)"]
  by simp

text \<open>One channel with one bar of height 1: the upper segment runs from 0 to the midline
  1/2, the lower one from 1/2 to 0.95, so its height is 0.45 and not
  \<open>snapshot / (2 K) = 1/2\<close>.\<close>

theorem draw_env_lower_segment_counterexample:
  "draw_env [[1]] [(0.2, 0.2, 0.2), (0.5, 0.3, 0.6)] (1, 1, 1) (400, 400) =
     Returns ((400, 400),
       [Scale 400 400, SetSourceRGB 1 1 1, Rectangle 0 0 1 1, Fill, SetLineWidth (5 / 6),
        SetSourceRGB 0.2 0.2 0.2, MoveTo (1 / 12) 0, LineTo (1 / 12) (1 / 2), Stroke,
        SetSourceRGBA 0.2 0.2 0.2 0.8, MoveTo (1 / 12) (1 / 2), LineTo (1 / 12) 0.95, Stroke]) \<and>
   (0.95 - 1 / 2 :: real) \<noteq> 1 / (2 * 1)"
  by (simp add: draw_env_def draw_bar_def Let_def)

text \<open>
  Claim C3. Whenever the run reaches the frame loop, on a decoded input of at least one
  channel with all channels of the same length and with a positive sample rate,
  framerate and oversample, then for every channel's padded envelope (the envelope with
  \<open>bars // 2\<close> zeros before it and \<open>2 * bars\<close> after it) and every frame index below
  the frame count, the two slices \<open>env[off * bars : (off + 1) * bars]\<close> and
  \<open>env[(off + 1) * bars : (off + 2) * bars]\<close> lie inside the array and have exactly
  \<open>bars\<close> elements each, with \<open>bars\<close> at least 1: the maximum of the second slice is
  never taken over an empty array.
\<close>

theorem envelope_windows_in_bounds:
  assumes "prepare wav sr rate b time oversample stereo = Returns (envs, stride, frames, smooth)"
    and "rectangular wav n" "0 < sr" "0 < rate" "0 < oversample"
    and "env \<in> set envs" "idx < nat frames"
  shows "\<exists>pos e. frame_pos idx rate sr stride b = Returns pos \<and> env = padded_env e b \<and>
     1 \<le> b \<and> 0 \<le> py_int pos \<and> (py_int pos + 2) * b \<le> int (length env) \<and>
     length (py_slice env (py_int pos * b) ((py_int pos + 1) * b)) = nat b \<and>
     length (py_slice env ((py_int pos + 1) * b) ((py_int pos + 2) * b)) = nat b \<and>
     (\<exists>m. np_max (py_slice env ((py_int pos + 1) * b) ((py_int pos + 2) * b)) = Returns m)"
proof -
  let ?pos = "real idx / rate * sr / of_int stride / of_int b"
  note fw = frame_windows [OF assms]
  from fw(7) obtain e where e: "env = padded_env e b"
    by blast
  have off: "0 \<le> py_int ?pos"
    using fw(2,3) by simp
  have l2: "length (py_slice env ((py_int ?pos + 1) * b) ((py_int ?pos + 2) * b)) = nat b"
    using fw(11) by (simp only: fw(3))
  have "length (take (nat b) (drop (nat ((py_int ?pos + 1) * b)) env)) = nat b"
    using fw(9,11) by (simp only: fw(3))
  then have "nat b \<le> length env - nat ((py_int ?pos + 1) * b)"
    by simp
  then have top: "(py_int ?pos + 2) * b \<le> int (length env)"
    using fw(4) off by (simp add: algebra_simps)
  have "py_slice env ((py_int ?pos + 1) * b) ((py_int ?pos + 2) * b) \<noteq> []"
    using l2 fw(4) by auto
  then have mx: "\<exists>m. np_max (py_slice env ((py_int ?pos + 1) * b) ((py_int ?pos + 2) * b)) = Returns m"
    by (simp add: np_max_def)
  have l1: "length (py_slice env (py_int ?pos * b) ((py_int ?pos + 1) * b)) = nat b"
    using fw(10) by (simp only: fw(3))
  show ?thesis
    using fw(1,4) e off top l1 l2 mx by blast
qed

theorem envelope_windows_in_bounds_witness:
  "\<exists>envs. prepare [[1, - 1, 1, - 1]] 4 2 2 1 1 False = Returns (envs, 2, 2, np_hanning 2) \<and>
     rectangular [[1, - 1, 1, - 1]] 4 \<and> hd envs \<in> set envs \<and> (1 :: nat) < nat 2 \<and>
     frame_pos 1 2 4 2 2 = Returns (1 / 2) \<and>
     length (py_slice (hd envs) 0 2) = 2 \<and> length (py_slice (hd envs) 2 4) = 2"
proof -
  from prepare_example obtain envs where
    p: "prepare [[1, - 1, 1, - 1]] 4 2 2 1 1 False = Returns (envs, 2, 2, np_hanning 2)"
    and ne: "envs \<noteq> []"
    by blast
  have r: "rectangular [[1, - 1, 1, - 1]] 4"
    by (simp add: rectangular_def)
  have h: "hd envs \<in> set envs"
    using ne by simp
  have fp: "frame_pos 1 2 4 2 2 = Returns (1 / 2)"
    by (simp add: frame_pos_def)
  have off: "py_int (1 / 2) = 0"
    by (simp add: py_int_def)
  from envelope_windows_in_bounds [OF p r _ _ _ h, of 1]
  obtain pos where q: "frame_pos 1 2 4 2 2 = Returns pos"
    and l: "length (py_slice (hd envs) (py_int pos * 2) ((py_int pos + 1) * 2)) = nat 2"
      "length (py_slice (hd envs) ((py_int pos + 1) * 2) ((py_int pos + 2) * 2)) = nat 2"
    by auto
  from q fp have "pos = 1 / 2"
    by simp
  with l have "length (py_slice (hd envs) (py_int (1 / 2) * 2) ((py_int (1 / 2) + 1) * 2)) = nat 2 \<and>
      length (py_slice (hd envs) ((py_int (1 / 2) + 1) * 2) ((py_int (1 / 2) + 2) * 2)) = nat 2"
    by simp
  then have "length (py_slice (hd envs) 0 2) = 2 \<and> length (py_slice (hd envs) 2 4) = 2"
    unfolding off by simp
  with p r h fp show ?thesis
    by auto
qed






end
